theory Spec2Isabelle
  imports Main "HOL-Library.Word" "HOL-Library.Monad_Syntax" "HOL-Library.State_Monad"
begin

unbundle bit_operations_syntax

section \<open>The sketch and its surroundings\<close>

text \<open>
  The program is the Arduino sketch \<^verbatim>\<open>Jissen_MJ_USB_Controller.ino\<close>. Everything it
  does to the outside world goes through the Arduino core (\<^verbatim>\<open>pinMode\<close>,
  \<^verbatim>\<open>digitalWrite\<close>, \<^verbatim>\<open>digitalRead\<close>, \<^verbatim>\<open>delay\<close>) and the Keyboard library
  (\<^verbatim>\<open>Keyboard.begin\<close>, \<^verbatim>\<open>Keyboard.press\<close>, \<^verbatim>\<open>Keyboard.releaseAll\<close>). Neither is part
  of the sketch, so each such call is recorded as one event of a trace, in program
  order, and nothing is assumed of the hardware behind it: the data line is an
  arbitrary sequence of levels, one per \<^verbatim>\<open>digitalRead\<close>.
\<close>

datatype level = LOW | HIGH

datatype pin_mode = INPUT | OUTPUT

datatype event =
    PinMode int pin_mode
  | DigitalWrite int level
  | DigitalRead int level
  | Delay nat
  | KeyboardBegin
  | KeyboardPress char
  | KeyboardReleaseAll

text \<open>
  \<^verbatim>\<open>Keyboard.h\<close> is not among the sources, so the three modifier key codes the sketch
  takes from it are parameters of the model. \<^verbatim>\<open>keyboardButtonPress\<close> receives them
  as \<^verbatim>\<open>char\<close>, hence eight bits each.
\<close>

record keyboard_h =
  KEY_LEFT_CTRL :: char
  KEY_LEFT_SHIFT :: char
  KEY_LEFT_ALT :: char

subsection \<open>Constants\<close>

text \<open>Buttons in commands row.\<close>

definition RON_BUTTON :: nat where "RON_BUTTON = 1"
definition RIICHI_BUTTON :: nat where "RIICHI_BUTTON = 2"
definition CHI_BUTTON :: nat where "CHI_BUTTON = 3"
definition PON_BUTTON :: nat where "PON_BUTTON = 4"
definition KAN_BUTTON :: nat where "KAN_BUTTON = 5"
definition ST_BUTTON :: nat where "ST_BUTTON = 6"
definition SEL_BUTTON :: nat where "SEL_BUTTON = 7"

text \<open>Buttons in I - N row.\<close>

definition N_BUTTON :: nat where "N_BUTTON = 2"
definition M_BUTTON :: nat where "M_BUTTON = 3"
definition L_BUTTON :: nat where "L_BUTTON = 4"
definition K_BUTTON :: nat where "K_BUTTON = 5"
definition J_BUTTON :: nat where "J_BUTTON = 6"
definition I_BUTTON :: nat where "I_BUTTON = 7"

text \<open>Buttons in A - H row.\<close>

definition H_BUTTON :: nat where "H_BUTTON = 0"
definition G_BUTTON :: nat where "G_BUTTON = 1"
definition F_BUTTON :: nat where "F_BUTTON = 2"
definition E_BUTTON :: nat where "E_BUTTON = 3"
definition D_BUTTON :: nat where "D_BUTTON = 4"
definition C_BUTTON :: nat where "C_BUTTON = 5"
definition B_BUTTON :: nat where "B_BUTTON = 6"
definition A_BUTTON :: nat where "A_BUTTON = 7"

text \<open>Pin declarations.\<close>

definition nesData :: int where "nesData = 4"
definition nesClock :: int where "nesClock = 5"
definition nesLatch :: int where "nesLatch = 6"
definition nesAH :: int where "nesAH = 7"
definition nesIN :: int where "nesIN = 8"

subsection \<open>State\<close>

text \<open>
  The three globals of the sketch, the levels the data line will show at the coming
  calls of \<^verbatim>\<open>digitalRead\<close> (\<open>dataLine s 0\<close> at the next one), and the trace of the
  calls made so far.
\<close>

record sketch =
  nesRegister :: "8 word"
  lastPressedKey :: char
  isButtonPressed :: bool
  dataLine :: "nat \<Rightarrow> level"
  trace :: "event list"

definition power_on :: "(nat \<Rightarrow> level) \<Rightarrow> sketch" where
  "power_on dl =
     \<lparr>nesRegister = 0, lastPressedKey = CHR 0x00, isButtonPressed = False,
      dataLine = dl, trace = []\<rparr>"

subsection \<open>Calls into the Arduino core and the Keyboard library\<close>

definition emit :: "event \<Rightarrow> (sketch, unit) state" where
  "emit e = State_Monad.update (\<lambda>s. s\<lparr>trace := trace s @ [e]\<rparr>)"

definition pinMode :: "int \<Rightarrow> pin_mode \<Rightarrow> (sketch, unit) state" where
  "pinMode pin m = emit (PinMode pin m)"

definition digitalWrite :: "int \<Rightarrow> level \<Rightarrow> (sketch, unit) state" where
  "digitalWrite pin v = emit (DigitalWrite pin v)"

definition digitalRead :: "int \<Rightarrow> (sketch, level) state" where
  "digitalRead pin = do {
     s \<leftarrow> State_Monad.get;
     let v = dataLine s 0;
     State_Monad.set (s\<lparr>dataLine := (\<lambda>n. dataLine s (Suc n))\<rparr>);
     emit (DigitalRead pin v);
     State_Monad.return v
   }"

definition delay :: "nat \<Rightarrow> (sketch, unit) state" where
  "delay ms = emit (Delay ms)"

definition Keyboard_begin :: "(sketch, unit) state" where
  "Keyboard_begin = emit KeyboardBegin"

definition Keyboard_press :: "char \<Rightarrow> (sketch, unit) state" where
  "Keyboard_press k = emit (KeyboardPress k)"

definition Keyboard_releaseAll :: "(sketch, unit) state" where
  "Keyboard_releaseAll = emit KeyboardReleaseAll"

text \<open>
  The two bit macros of the Arduino core, as \<^verbatim>\<open>Arduino.h\<close> defines them:
  \<^verbatim>\<open>bitRead(value, bit)\<close> is \<^verbatim>\<open>(((value) >> (bit)) & 0x01)\<close> and
  \<^verbatim>\<open>bitClear(value, bit)\<close> is \<^verbatim>\<open>((value) &= ~(1UL << (bit)))\<close>. The sketch applies
  the first to the byte \<^verbatim>\<open>nesRegister\<close> and the second to \<^verbatim>\<open>int tempData\<close>, which
  has sixteen bits on the ATmega32u4.
\<close>

definition bitRead :: "8 word \<Rightarrow> nat \<Rightarrow> 8 word" where
  "bitRead v b = drop_bit b v AND 1"

definition bitClear :: "16 word \<Rightarrow> nat \<Rightarrow> 16 word" where
  "bitClear v b = v AND NOT (push_bit b 1)"

section \<open>The functions of the sketch\<close>

text \<open>
  The statement \<^verbatim>\<open>if (digitalRead(nesData) == LOW) bitClear(tempData, b);\<close>, which the
  three row readers repeat for every button; the result is the new \<^verbatim>\<open>tempData\<close>.
\<close>

definition readBit :: "16 word \<Rightarrow> nat \<Rightarrow> (sketch, 16 word) state" where
  "readBit tempData b = do {
     v \<leftarrow> digitalRead nesData;
     State_Monad.return (if v = LOW then bitClear tempData b else tempData)
   }"

definition readAHrow :: "(sketch, 8 word) state" where
  "readAHrow = do {
     let tempData = 255;
     digitalWrite nesAH LOW;
     digitalWrite nesIN HIGH;
     digitalWrite nesLatch HIGH;
     digitalWrite nesLatch LOW;
     tempData \<leftarrow> readBit tempData H_BUTTON;
     digitalWrite nesClock HIGH;
     digitalWrite nesClock LOW;
     tempData \<leftarrow> readBit tempData G_BUTTON;
     digitalWrite nesClock HIGH;
     digitalWrite nesClock LOW;
     tempData \<leftarrow> readBit tempData F_BUTTON;
     digitalWrite nesClock HIGH;
     digitalWrite nesClock LOW;
     tempData \<leftarrow> readBit tempData E_BUTTON;
     digitalWrite nesClock HIGH;
     digitalWrite nesClock LOW;
     tempData \<leftarrow> readBit tempData D_BUTTON;
     digitalWrite nesClock HIGH;
     digitalWrite nesClock LOW;
     tempData \<leftarrow> readBit tempData C_BUTTON;
     digitalWrite nesClock HIGH;
     digitalWrite nesClock LOW;
     tempData \<leftarrow> readBit tempData B_BUTTON;
     digitalWrite nesClock HIGH;
     digitalWrite nesClock LOW;
     tempData \<leftarrow> readBit tempData A_BUTTON;
     State_Monad.return (ucast tempData)
   }"

definition readINrow :: "(sketch, 8 word) state" where
  "readINrow = do {
     let tempData = 255;
     digitalWrite nesAH HIGH;
     digitalWrite nesIN LOW;
     digitalWrite nesLatch HIGH;
     digitalWrite nesLatch LOW;
     digitalWrite nesClock HIGH;
     digitalWrite nesClock LOW;
     digitalWrite nesClock HIGH;
     digitalWrite nesClock LOW;
     tempData \<leftarrow> readBit tempData N_BUTTON;
     digitalWrite nesClock HIGH;
     digitalWrite nesClock LOW;
     tempData \<leftarrow> readBit tempData M_BUTTON;
     digitalWrite nesClock HIGH;
     digitalWrite nesClock LOW;
     tempData \<leftarrow> readBit tempData L_BUTTON;
     digitalWrite nesClock HIGH;
     digitalWrite nesClock LOW;
     tempData \<leftarrow> readBit tempData K_BUTTON;
     digitalWrite nesClock HIGH;
     digitalWrite nesClock LOW;
     tempData \<leftarrow> readBit tempData J_BUTTON;
     digitalWrite nesClock HIGH;
     digitalWrite nesClock LOW;
     tempData \<leftarrow> readBit tempData I_BUTTON;
     State_Monad.return (ucast tempData)
   }"

definition readCommandRow :: "(sketch, 8 word) state" where
  "readCommandRow = do {
     let tempData = 255;
     digitalWrite nesAH HIGH;
     digitalWrite nesIN HIGH;
     digitalWrite nesLatch HIGH;
     digitalWrite nesLatch LOW;
     digitalWrite nesClock HIGH;
     digitalWrite nesClock LOW;
     tempData \<leftarrow> readBit tempData RON_BUTTON;
     digitalWrite nesClock HIGH;
     digitalWrite nesClock LOW;
     tempData \<leftarrow> readBit tempData RIICHI_BUTTON;
     digitalWrite nesClock HIGH;
     digitalWrite nesClock LOW;
     tempData \<leftarrow> readBit tempData CHI_BUTTON;
     digitalWrite nesClock HIGH;
     digitalWrite nesClock LOW;
     tempData \<leftarrow> readBit tempData PON_BUTTON;
     digitalWrite nesClock HIGH;
     digitalWrite nesClock LOW;
     tempData \<leftarrow> readBit tempData KAN_BUTTON;
     digitalWrite nesClock HIGH;
     digitalWrite nesClock LOW;
     tempData \<leftarrow> readBit tempData ST_BUTTON;
     digitalWrite nesClock HIGH;
     digitalWrite nesClock LOW;
     tempData \<leftarrow> readBit tempData SEL_BUTTON;
     State_Monad.return (ucast tempData)
   }"

definition keyboardButtonPress :: "char \<Rightarrow> (sketch, unit) state" where
  "keyboardButtonPress key = do {
     State_Monad.update (\<lambda>s. s\<lparr>isButtonPressed := True\<rparr>);
     Keyboard_press key;
     State_Monad.update (\<lambda>s. s\<lparr>lastPressedKey := key\<rparr>)
   }"

text \<open>
  The statement \<^verbatim>\<open>if (bitRead(nesRegister, b) == 0) keyboardButtonPress(key);\<close> of
  \<^verbatim>\<open>loop\<close>.
\<close>

definition checkButton :: "nat \<Rightarrow> char \<Rightarrow> (sketch, unit) state" where
  "checkButton b key = do {
     s \<leftarrow> State_Monad.get;
     if bitRead (nesRegister s) b = 0 then keyboardButtonPress key
     else State_Monad.return ()
   }"

definition setup_sketch :: "(sketch, unit) state" where
  "setup_sketch = do {
     pinMode nesData INPUT;
     pinMode nesClock OUTPUT;
     pinMode nesLatch OUTPUT;
     pinMode nesAH OUTPUT;
     pinMode nesIN OUTPUT;
     digitalWrite nesClock LOW;
     digitalWrite nesLatch LOW;
     Keyboard_begin
   }"

definition loop :: "keyboard_h \<Rightarrow> (sketch, unit) state" where
  "loop kh = do {
     r \<leftarrow> readAHrow;
     State_Monad.update (\<lambda>s. s\<lparr>nesRegister := r\<rparr>);
     checkButton H_BUTTON (CHR ''h'');
     checkButton G_BUTTON (CHR ''g'');
     checkButton F_BUTTON (CHR ''f'');
     checkButton E_BUTTON (CHR ''e'');
     checkButton D_BUTTON (CHR ''d'');
     checkButton C_BUTTON (CHR ''c'');
     checkButton B_BUTTON (CHR ''b'');
     checkButton A_BUTTON (CHR ''a'');
     r \<leftarrow> readINrow;
     State_Monad.update (\<lambda>s. s\<lparr>nesRegister := r\<rparr>);
     checkButton N_BUTTON (CHR ''n'');
     checkButton M_BUTTON (CHR ''m'');
     checkButton L_BUTTON (CHR ''l'');
     checkButton K_BUTTON (CHR ''k'');
     checkButton J_BUTTON (CHR ''j'');
     checkButton I_BUTTON (CHR ''i'');
     r \<leftarrow> readCommandRow;
     State_Monad.update (\<lambda>s. s\<lparr>nesRegister := r\<rparr>);
     checkButton RON_BUTTON (CHR ''z'');
     checkButton RIICHI_BUTTON (KEY_LEFT_SHIFT kh);
     checkButton CHI_BUTTON (CHR '' '');
     checkButton PON_BUTTON (KEY_LEFT_ALT kh);
     checkButton KAN_BUTTON (KEY_LEFT_CTRL kh);
     checkButton ST_BUTTON (CHR ''1'');
     checkButton SEL_BUTTON (CHR ''5'');
     s \<leftarrow> State_Monad.get;
     (if isButtonPressed s then delay 80
      else if lastPressedKey s \<noteq> CHR 0x00 then do {
        Keyboard_releaseAll;
        State_Monad.update (\<lambda>s. s\<lparr>lastPressedKey := CHR 0x00\<rparr>)
      }
      else State_Monad.return ());
     State_Monad.update (\<lambda>s. s\<lparr>isButtonPressed := False\<rparr>)
   }"

text \<open>The Arduino runtime calls \<^verbatim>\<open>setup\<close> once and then \<^verbatim>\<open>loop\<close> for ever.\<close>

primrec loops :: "keyboard_h \<Rightarrow> nat \<Rightarrow> (sketch, unit) state" where
  "loops kh 0 = State_Monad.return ()"
| "loops kh (Suc n) = do { loop kh; loops kh n }"

definition run :: "keyboard_h \<Rightarrow> nat \<Rightarrow> (nat \<Rightarrow> level) \<Rightarrow> sketch" where
  "run kh n dl = snd (run_state (do { setup_sketch; loops kh n }) (power_on dl))"

definition booted :: "(nat \<Rightarrow> level) \<Rightarrow> sketch" where
  "booted dl = snd (run_state setup_sketch (power_on dl))"

definition after :: "keyboard_h \<Rightarrow> sketch \<Rightarrow> sketch" where
  "after kh s = snd (run_state (loop kh) s)"

definition afterN :: "keyboard_h \<Rightarrow> nat \<Rightarrow> sketch \<Rightarrow> sketch" where
  "afterN kh n s = snd (run_state (loops kh n) s)"

text \<open>The events a computation appends to the trace when started in \<open>s\<close>.\<close>

definition emitted :: "(sketch, 'a) state \<Rightarrow> sketch \<Rightarrow> event list" where
  "emitted m s = drop (length (trace s)) (trace (snd (run_state m s)))"

subsection \<open>The parts of \<open>loop\<close>\<close>

text \<open>
  \<^verbatim>\<open>loop\<close> has four parts, one per comment of the source: the button checks that
  follow each of the three row reads, and the release check at the end. They are named
  here so that a property of one part can be stated; lemma \<open>loop_parts\<close> below shows
  that \<^verbatim>\<open>loop\<close> is their sequence.
\<close>

definition loop_AH_buttons :: "(sketch, unit) state" where
  "loop_AH_buttons = do {
     checkButton H_BUTTON (CHR ''h'');
     checkButton G_BUTTON (CHR ''g'');
     checkButton F_BUTTON (CHR ''f'');
     checkButton E_BUTTON (CHR ''e'');
     checkButton D_BUTTON (CHR ''d'');
     checkButton C_BUTTON (CHR ''c'');
     checkButton B_BUTTON (CHR ''b'');
     checkButton A_BUTTON (CHR ''a'')
   }"

definition loop_IN_buttons :: "(sketch, unit) state" where
  "loop_IN_buttons = do {
     checkButton N_BUTTON (CHR ''n'');
     checkButton M_BUTTON (CHR ''m'');
     checkButton L_BUTTON (CHR ''l'');
     checkButton K_BUTTON (CHR ''k'');
     checkButton J_BUTTON (CHR ''j'');
     checkButton I_BUTTON (CHR ''i'')
   }"

definition loop_command_buttons :: "keyboard_h \<Rightarrow> (sketch, unit) state" where
  "loop_command_buttons kh = do {
     checkButton RON_BUTTON (CHR ''z'');
     checkButton RIICHI_BUTTON (KEY_LEFT_SHIFT kh);
     checkButton CHI_BUTTON (CHR '' '');
     checkButton PON_BUTTON (KEY_LEFT_ALT kh);
     checkButton KAN_BUTTON (KEY_LEFT_CTRL kh);
     checkButton ST_BUTTON (CHR ''1'');
     checkButton SEL_BUTTON (CHR ''5'')
   }"

definition loop_release :: "(sketch, unit) state" where
  "loop_release = do {
     s \<leftarrow> State_Monad.get;
     (if isButtonPressed s then delay 80
      else if lastPressedKey s \<noteq> CHR 0x00 then do {
        Keyboard_releaseAll;
        State_Monad.update (\<lambda>s. s\<lparr>lastPressedKey := CHR 0x00\<rparr>)
      }
      else State_Monad.return ());
     State_Monad.update (\<lambda>s. s\<lparr>isButtonPressed := False\<rparr>)
   }"

section \<open>The vocabulary of the specification\<close>

text \<open>
  The specification speaks of rows, logical buttons, a bit-position table, a key code
  table, the snapshot of a polling cycle and the set of active keys. The sketch has
  none of these as data: it has the position constants, the key literals in
  \<^verbatim>\<open>loop\<close> and the calls it makes. The definitions of this section follow the
  specification, and the theorems compare them with what the sketch does.
\<close>

datatype row = ROW_AH | ROW_IN | ROW_CMD

datatype button =
    Btn_A | Btn_B | Btn_C | Btn_D | Btn_E | Btn_F | Btn_G | Btn_H
  | Btn_I | Btn_J | Btn_K | Btn_L | Btn_M | Btn_N
  | Btn_RON | Btn_RIICHI | Btn_CHI | Btn_PON | Btn_KAN | Btn_ST | Btn_SEL

text \<open>The bit-position table, by row, unused positions left out.\<close>

fun rowTable :: "row \<Rightarrow> (nat \<times> button) list" where
  "rowTable ROW_AH =
     [(0, Btn_H), (1, Btn_G), (2, Btn_F), (3, Btn_E),
      (4, Btn_D), (5, Btn_C), (6, Btn_B), (7, Btn_A)]"
| "rowTable ROW_IN =
     [(2, Btn_N), (3, Btn_M), (4, Btn_L), (5, Btn_K), (6, Btn_J), (7, Btn_I)]"
| "rowTable ROW_CMD =
     [(1, Btn_RON), (2, Btn_RIICHI), (3, Btn_CHI), (4, Btn_PON),
      (5, Btn_KAN), (6, Btn_ST), (7, Btn_SEL)]"

text \<open>
  \<open>decode row bits\<close>: every button of the row whose bit is 0, in the order of the
  table.
\<close>

definition decode :: "row \<Rightarrow> 8 word \<Rightarrow> button list" where
  "decode r bits = map snd (filter (\<lambda>pb. \<not> bit bits (fst pb)) (rowTable r))"

text \<open>The mapping from logical button to output key code.\<close>

fun keyCode :: "keyboard_h \<Rightarrow> button \<Rightarrow> char" where
  "keyCode kh Btn_A = CHR ''a''"
| "keyCode kh Btn_B = CHR ''b''"
| "keyCode kh Btn_C = CHR ''c''"
| "keyCode kh Btn_D = CHR ''d''"
| "keyCode kh Btn_E = CHR ''e''"
| "keyCode kh Btn_F = CHR ''f''"
| "keyCode kh Btn_G = CHR ''g''"
| "keyCode kh Btn_H = CHR ''h''"
| "keyCode kh Btn_I = CHR ''i''"
| "keyCode kh Btn_J = CHR ''j''"
| "keyCode kh Btn_K = CHR ''k''"
| "keyCode kh Btn_L = CHR ''l''"
| "keyCode kh Btn_M = CHR ''m''"
| "keyCode kh Btn_N = CHR ''n''"
| "keyCode kh Btn_RON = CHR ''z''"
| "keyCode kh Btn_RIICHI = KEY_LEFT_SHIFT kh"
| "keyCode kh Btn_CHI = CHR '' ''"
| "keyCode kh Btn_PON = KEY_LEFT_ALT kh"
| "keyCode kh Btn_KAN = KEY_LEFT_CTRL kh"
| "keyCode kh Btn_ST = CHR ''1''"
| "keyCode kh Btn_SEL = CHR ''5''"

text \<open>
  The raw bits that the reader of a row returns in the polling cycle that starts in
  \<open>s\<close>: the readers run in the order of \<^verbatim>\<open>loop\<close>, A-H, then I-N, then commands.
\<close>

definition rowBits :: "sketch \<Rightarrow> row \<Rightarrow> 8 word" where
  "rowBits s r =
     fst (run_state
       (case r of
          ROW_AH \<Rightarrow> readAHrow
        | ROW_IN \<Rightarrow> do { readAHrow; readINrow }
        | ROW_CMD \<Rightarrow> do { readAHrow; readINrow; readCommandRow }) s)"

text \<open>
  The snapshot of the cycle that starts in \<open>s\<close>: the buttons read as pressed in the
  three rows, kept as a list in the order of the table, which has no button twice.
\<close>

definition snapshot :: "sketch \<Rightarrow> button list" where
  "snapshot s =
     decode ROW_AH (rowBits s ROW_AH) @ decode ROW_IN (rowBits s ROW_IN) @
     decode ROW_CMD (rowBits s ROW_CMD)"

text \<open>The calls to the Keyboard library in a trace, and the keys of its press calls.\<close>

fun isKeyboardCall :: "event \<Rightarrow> bool" where
  "isKeyboardCall KeyboardBegin = True"
| "isKeyboardCall (KeyboardPress k) = True"
| "isKeyboardCall KeyboardReleaseAll = True"
| "isKeyboardCall e = False"

definition keyboardCalls :: "event list \<Rightarrow> event list" where
  "keyboardCalls evs = filter isKeyboardCall evs"

fun pressKeys :: "event list \<Rightarrow> char list" where
  "pressKeys [] = []"
| "pressKeys (KeyboardPress k # es) = k # pressKeys es"
| "pressKeys (e # es) = pressKeys es"

text \<open>
  The active keys after a trace: those for which a press was sent and no release-all
  since.
\<close>

fun activeStep :: "char set \<Rightarrow> event \<Rightarrow> char set" where
  "activeStep A (KeyboardPress k) = insert k A"
| "activeStep A KeyboardReleaseAll = {}"
| "activeStep A e = A"

definition activeKeys :: "event list \<Rightarrow> char set" where
  "activeKeys evs = foldl activeStep {} evs"

text \<open>Reads of the data line, and writes to the latch and clock lines.\<close>

fun isRead :: "event \<Rightarrow> bool" where
  "isRead (DigitalRead pin v) = True"
| "isRead e = False"

fun isPulse :: "event \<Rightarrow> bool" where
  "isPulse (DigitalWrite pin v) = (pin = nesLatch \<or> pin = nesClock)"
| "isPulse e = False"

text \<open>
  The two select pins as the microcontroller has them, A-H first: each has a direction
  and a port latch, and it drives its line only as an output, at the level of its
  latch. As in the Arduino core for AVR, \<^verbatim>\<open>pinMode(pin, OUTPUT)\<close> changes the direction
  and leaves the latch, \<^verbatim>\<open>pinMode(pin, INPUT)\<close> clears both, and \<^verbatim>\<open>digitalWrite\<close> sets
  the latch. At power-on both pins are inputs. The sketch never writes a level to a
  select pin before it makes it an output, so the level of each latch at power-on is
  a parameter; the ATmega32u4, for which the sketch is written, resets its port
  latches to LOW.
\<close>

type_synonym port_pin = "pin_mode \<times> level"

fun pinStep :: "int \<Rightarrow> port_pin \<Rightarrow> event \<Rightarrow> port_pin" where
  "pinStep p (m, v) (PinMode pin m') =
     (if pin = p then (m', if m' = INPUT then LOW else v) else (m, v))"
| "pinStep p (m, v) (DigitalWrite pin v') = (if pin = p then (m, v') else (m, v))"
| "pinStep p mv e = mv"

definition selectStep :: "port_pin \<times> port_pin \<Rightarrow> event \<Rightarrow> port_pin \<times> port_pin" where
  "selectStep sel e = (pinStep nesAH (fst sel) e, pinStep nesIN (snd sel) e)"

definition selectLines :: "level \<Rightarrow> level \<Rightarrow> event list \<Rightarrow> port_pin \<times> port_pin" where
  "selectLines ah0 in0 evs = foldl selectStep ((INPUT, ah0), (INPUT, in0)) evs"

text \<open>Both select lines driven LOW: the fourth selector combination.\<close>

definition bothLow :: "port_pin \<times> port_pin \<Rightarrow> bool" where
  "bothLow sel \<longleftrightarrow> sel = ((OUTPUT, LOW), (OUTPUT, LOW))"

text \<open>
  The eight levels, position 0 first, with which the data line presents a byte to a
  row reader: LOW for a bit that is 0.
\<close>

definition samplesOf :: "8 word \<Rightarrow> level list" where
  "samplesOf bits = map (\<lambda>i. if bit bits i then HIGH else LOW) [0..<8]"

text \<open>
  The release check of \<^verbatim>\<open>loop\<close> compares the last pressed key with 0, so a button
  whose key code is 0 would never be released. The letters, the digits and the space
  are not 0; for the three codes of \<^verbatim>\<open>Keyboard.h\<close> this is a condition on the
  parameter.
\<close>

definition modifiers_nonzero :: "keyboard_h \<Rightarrow> bool" where
  "modifiers_nonzero kh \<longleftrightarrow>
     KEY_LEFT_CTRL kh \<noteq> CHR 0x00 \<and> KEY_LEFT_SHIFT kh \<noteq> CHR 0x00 \<and>
     KEY_LEFT_ALT kh \<noteq> CHR 0x00"

section \<open>Closed forms\<close>

text \<open>
  What the row readers and \<^verbatim>\<open>loop\<close> compute, written without the monad; the lemmas
  of the next section prove that the sketch computes exactly this.
\<close>

definition clearIf :: "level \<Rightarrow> 16 word \<Rightarrow> nat \<Rightarrow> 16 word" where
  "clearIf v t b = (if v = LOW then bitClear t b else t)"

definition latch :: "event list" where
  "latch = [DigitalWrite nesLatch HIGH, DigitalWrite nesLatch LOW]"

definition clock :: "event list" where
  "clock = [DigitalWrite nesClock HIGH, DigitalWrite nesClock LOW]"

definition sample :: "(nat \<Rightarrow> level) \<Rightarrow> nat \<Rightarrow> event list" where
  "sample dl i = [DigitalRead nesData (dl i)]"

definition eventsAH :: "(nat \<Rightarrow> level) \<Rightarrow> event list" where
  "eventsAH dl =
     [DigitalWrite nesAH LOW, DigitalWrite nesIN HIGH] @ latch @ sample dl 0 @
     clock @ sample dl 1 @ clock @ sample dl 2 @ clock @ sample dl 3 @
     clock @ sample dl 4 @ clock @ sample dl 5 @ clock @ sample dl 6 @
     clock @ sample dl 7"

definition eventsIN :: "(nat \<Rightarrow> level) \<Rightarrow> event list" where
  "eventsIN dl =
     [DigitalWrite nesAH HIGH, DigitalWrite nesIN LOW] @ latch @
     clock @ clock @ sample dl 0 @ clock @ sample dl 1 @ clock @ sample dl 2 @
     clock @ sample dl 3 @ clock @ sample dl 4 @ clock @ sample dl 5"

definition eventsCMD :: "(nat \<Rightarrow> level) \<Rightarrow> event list" where
  "eventsCMD dl =
     [DigitalWrite nesAH HIGH, DigitalWrite nesIN HIGH] @ latch @
     clock @ sample dl 0 @ clock @ sample dl 1 @ clock @ sample dl 2 @
     clock @ sample dl 3 @ clock @ sample dl 4 @ clock @ sample dl 5 @
     clock @ sample dl 6"

definition byteAH :: "(nat \<Rightarrow> level) \<Rightarrow> 8 word" where
  "byteAH dl =
     ucast (clearIf (dl 7) (clearIf (dl 6) (clearIf (dl 5) (clearIf (dl 4)
       (clearIf (dl 3) (clearIf (dl 2) (clearIf (dl 1) (clearIf (dl 0) 255
         H_BUTTON) G_BUTTON) F_BUTTON) E_BUTTON) D_BUTTON) C_BUTTON) B_BUTTON) A_BUTTON)"

definition byteIN :: "(nat \<Rightarrow> level) \<Rightarrow> 8 word" where
  "byteIN dl =
     ucast (clearIf (dl 5) (clearIf (dl 4) (clearIf (dl 3) (clearIf (dl 2)
       (clearIf (dl 1) (clearIf (dl 0) 255
         N_BUTTON) M_BUTTON) L_BUTTON) K_BUTTON) J_BUTTON) I_BUTTON)"

definition byteCMD :: "(nat \<Rightarrow> level) \<Rightarrow> 8 word" where
  "byteCMD dl =
     ucast (clearIf (dl 6) (clearIf (dl 5) (clearIf (dl 4) (clearIf (dl 3)
       (clearIf (dl 2) (clearIf (dl 1) (clearIf (dl 0) 255
         RON_BUTTON) RIICHI_BUTTON) CHI_BUTTON) PON_BUTTON) KAN_BUTTON) ST_BUTTON)
         SEL_BUTTON)"

primrec checkButtons :: "(nat \<times> char) list \<Rightarrow> (sketch, unit) state" where
  "checkButtons [] = State_Monad.return ()"
| "checkButtons (x # xs) = do { checkButton (fst x) (snd x); checkButtons xs }"

definition pressAll :: "char list \<Rightarrow> sketch \<Rightarrow> sketch" where
  "pressAll ks s =
     s\<lparr>lastPressedKey := (if ks = [] then lastPressedKey s else last ks),
       isButtonPressed := (isButtonPressed s \<or> ks \<noteq> []),
       trace := trace s @ map KeyboardPress ks\<rparr>"

definition tailEvents :: "sketch \<Rightarrow> event list" where
  "tailEvents s =
     (if snapshot s \<noteq> [] \<or> isButtonPressed s then [Delay 80]
      else if lastPressedKey s \<noteq> CHR 0x00 then [KeyboardReleaseAll] else [])"

definition cycleEvents :: "keyboard_h \<Rightarrow> sketch \<Rightarrow> event list" where
  "cycleEvents kh s =
     eventsAH (dataLine s) @
     map (KeyboardPress \<circ> keyCode kh) (decode ROW_AH (rowBits s ROW_AH)) @
     eventsIN (\<lambda>n. dataLine s (n + 8)) @
     map (KeyboardPress \<circ> keyCode kh) (decode ROW_IN (rowBits s ROW_IN)) @
     eventsCMD (\<lambda>n. dataLine s (n + 14)) @
     map (KeyboardPress \<circ> keyCode kh) (decode ROW_CMD (rowBits s ROW_CMD)) @
     tailEvents s"

definition cycleKey :: "keyboard_h \<Rightarrow> sketch \<Rightarrow> char" where
  "cycleKey kh s =
     (if snapshot s \<noteq> [] then keyCode kh (last (snapshot s))
      else if isButtonPressed s then lastPressedKey s else CHR 0x00)"

primrec safeFrom :: "port_pin \<times> port_pin \<Rightarrow> event list \<Rightarrow> bool" where
  "safeFrom sel [] = (\<not> bothLow sel)"
| "safeFrom sel (e # es) = (\<not> bothLow sel \<and> safeFrom (selectStep sel e) es)"

subsection \<open>Concrete inputs\<close>

text \<open>
  A data line that is never low; one that is low at the first read of the first two
  polling cycles, which is button H held for two cycles and then let go; and the key
  codes of the Arduino Keyboard library.
\<close>

definition idle_line :: "nat \<Rightarrow> level" where
  "idle_line n = HIGH"

definition tap_H :: "nat \<Rightarrow> level" where
  "tap_H n = (if n = 0 \<or> n = 21 then LOW else HIGH)"

definition arduino_keyboard_h :: keyboard_h where
  "arduino_keyboard_h =
     \<lparr>KEY_LEFT_CTRL = CHR 0x80, KEY_LEFT_SHIFT = CHR 0x81, KEY_LEFT_ALT = CHR 0x82\<rparr>"

section \<open>What the sketch computes\<close>

lemmas button_defs =
  RON_BUTTON_def RIICHI_BUTTON_def CHI_BUTTON_def PON_BUTTON_def KAN_BUTTON_def
  ST_BUTTON_def SEL_BUTTON_def
  N_BUTTON_def M_BUTTON_def L_BUTTON_def K_BUTTON_def J_BUTTON_def I_BUTTON_def
  H_BUTTON_def G_BUTTON_def F_BUTTON_def E_BUTTON_def D_BUTTON_def C_BUTTON_def
  B_BUTTON_def A_BUTTON_def

lemmas pin_defs = nesData_def nesClock_def nesLatch_def nesAH_def nesIN_def

lemmas gpio_defs = eventsAH_def eventsIN_def eventsCMD_def clock_def latch_def sample_def

subsection \<open>The calls\<close>

lemma run_emit [simp]: "run_state (emit e) s = ((), s\<lparr>trace := trace s @ [e]\<rparr>)"
  by (simp add: emit_def State_Monad.update_def)

lemma run_digitalWrite [simp]:
  "run_state (digitalWrite p v) s = ((), s\<lparr>trace := trace s @ [DigitalWrite p v]\<rparr>)"
  by (simp add: digitalWrite_def)

lemma run_digitalRead [simp]:
  "run_state (digitalRead p) s =
     (dataLine s 0,
      s\<lparr>dataLine := (\<lambda>n. dataLine s (Suc n)),
        trace := trace s @ [DigitalRead p (dataLine s 0)]\<rparr>)"
  by (simp add: digitalRead_def Let_def)

lemma run_readBit [simp]:
  "run_state (readBit t b) s =
     (clearIf (dataLine s 0) t b,
      s\<lparr>dataLine := (\<lambda>n. dataLine s (Suc n)),
        trace := trace s @ [DigitalRead nesData (dataLine s 0)]\<rparr>)"
  by (simp add: readBit_def clearIf_def)

lemma bitRead_eq_0: "bitRead v b = 0 \<longleftrightarrow> \<not> bit v b"
  by (simp add: bitRead_def bit_iff_odd_drop_bit and_one_eq mod_2_eq_odd)

lemma bit_clearIf: "bit (clearIf v t b) i \<longleftrightarrow> bit t i \<and> (i = b \<longrightarrow> v \<noteq> LOW)"
  by (auto simp add: clearIf_def bitClear_def bit_simps dest: bit_imp_le_length)

subsection \<open>The row readers\<close>

lemma run_readAHrow:
  "run_state readAHrow s =
     (byteAH (dataLine s),
      s\<lparr>dataLine := (\<lambda>n. dataLine s (n + 8)), trace := trace s @ eventsAH (dataLine s)\<rparr>)"
  by (simp add: readAHrow_def byteAH_def gpio_defs eval_nat_numeral)

lemma run_readINrow:
  "run_state readINrow s =
     (byteIN (dataLine s),
      s\<lparr>dataLine := (\<lambda>n. dataLine s (n + 6)), trace := trace s @ eventsIN (dataLine s)\<rparr>)"
  by (simp add: readINrow_def byteIN_def gpio_defs eval_nat_numeral)

lemma run_readCommandRow:
  "run_state readCommandRow s =
     (byteCMD (dataLine s),
      s\<lparr>dataLine := (\<lambda>n. dataLine s (n + 7)), trace := trace s @ eventsCMD (dataLine s)\<rparr>)"
  by (simp add: readCommandRow_def byteCMD_def gpio_defs eval_nat_numeral)

lemma emitted_readers:
  "emitted readAHrow s = eventsAH (dataLine s)"
  "emitted readINrow s = eventsIN (dataLine s)"
  "emitted readCommandRow s = eventsCMD (dataLine s)"
  by (simp_all add: emitted_def run_readAHrow run_readINrow run_readCommandRow)

lemma rowBits_AH: "rowBits s ROW_AH = byteAH (dataLine s)"
  by (simp add: rowBits_def run_readAHrow)

lemma rowBits_IN: "rowBits s ROW_IN = byteIN (\<lambda>n. dataLine s (n + 8))"
  by (simp add: rowBits_def run_readAHrow run_readINrow)

lemma rowBits_CMD: "rowBits s ROW_CMD = byteCMD (\<lambda>n. dataLine s (n + 14))"
  by (simp add: rowBits_def run_readAHrow run_readINrow run_readCommandRow add.assoc)

lemma less_8_cases:
  "i < 8 \<longleftrightarrow> i = 0 \<or> i = 1 \<or> i = 2 \<or> i = 3 \<or> i = 4 \<or> i = 5 \<or> i = 6 \<or> i = (7::nat)"
  by arith

lemma bit_255: "bit (255 :: 16 word) i \<longleftrightarrow> i < 8"
proof -
  have m: "(mask 8 :: 16 word) = 255"
    by (simp add: mask_eq_exp_minus_1)
  have "bit (mask 8 :: 16 word) i \<longleftrightarrow> i < 8"
    by (auto simp add: bit_mask_iff)
  then show ?thesis
    unfolding m .
qed

lemma bit_byteAH: "bit (byteAH dl) i \<longleftrightarrow> i < 8 \<and> dl i \<noteq> LOW"
proof (cases "i < 8")
  case True
  then show ?thesis
    unfolding less_8_cases
    by (elim disjE) (simp_all add: byteAH_def bit_ucast_iff bit_clearIf bit_255 button_defs)
next
  case False
  then show ?thesis
    by (simp add: byteAH_def bit_ucast_iff)
qed

lemma bit_byteIN: "bit (byteIN dl) i \<longleftrightarrow> i < 8 \<and> (2 \<le> i \<longrightarrow> dl (i - 2) \<noteq> LOW)"
proof (cases "i < 8")
  case True
  then show ?thesis
    unfolding less_8_cases
    by (elim disjE) (simp_all add: byteIN_def bit_ucast_iff bit_clearIf bit_255 button_defs)
next
  case False
  then show ?thesis
    by (simp add: byteIN_def bit_ucast_iff)
qed

lemma bit_byteCMD: "bit (byteCMD dl) i \<longleftrightarrow> i < 8 \<and> (1 \<le> i \<longrightarrow> dl (i - 1) \<noteq> LOW)"
proof (cases "i < 8")
  case True
  then show ?thesis
    unfolding less_8_cases
    by (elim disjE) (simp_all add: byteCMD_def bit_ucast_iff bit_clearIf bit_255 button_defs)
next
  case False
  then show ?thesis
    by (simp add: byteCMD_def bit_ucast_iff)
qed

lemma byteAH_samples:
  assumes "map dl [0..<8] = samplesOf bits"
  shows "byteAH dl = bits"
proof (rule bit_eqI)
  fix i
  have "\<forall>i\<in>set [0..<8]. dl i = (if bit bits i then HIGH else LOW)"
    using assms unfolding samplesOf_def by (simp only: map_eq_conv)
  then have "i < 8 \<longrightarrow> (dl i \<noteq> LOW) = bit bits i"
    by simp
  moreover have "bit bits i \<longrightarrow> i < 8"
    by (auto dest: bit_imp_le_length)
  ultimately show "bit (byteAH dl) i \<longleftrightarrow> bit bits i"
    by (auto simp add: bit_byteAH)
qed

lemma samplesOf_0xFE:
  "samplesOf 0xFE = [LOW, HIGH, HIGH, HIGH, HIGH, HIGH, HIGH, HIGH]"
  by (simp add: samplesOf_def upt_rec)

lemma pulses_events:
  "filter isPulse (eventsAH dl) = latch @ concat (replicate 7 clock)"
  "filter isPulse (eventsIN dl) = latch @ concat (replicate 7 clock)"
  "filter isPulse (eventsCMD dl) = latch @ concat (replicate 7 clock)"
  by (simp_all add: gpio_defs eval_nat_numeral pin_defs)

lemma reads_events:
  "length (filter isRead (eventsAH dl)) = 8"
  "length (filter isRead (eventsIN dl)) = 6"
  "length (filter isRead (eventsCMD dl)) = 7"
  by (simp_all add: gpio_defs)

subsection \<open>The button checks\<close>

lemma loop_parts:
  "loop kh = do {
     r \<leftarrow> readAHrow;
     State_Monad.update (\<lambda>s. s\<lparr>nesRegister := r\<rparr>);
     loop_AH_buttons;
     r \<leftarrow> readINrow;
     State_Monad.update (\<lambda>s. s\<lparr>nesRegister := r\<rparr>);
     loop_IN_buttons;
     r \<leftarrow> readCommandRow;
     State_Monad.update (\<lambda>s. s\<lparr>nesRegister := r\<rparr>);
     loop_command_buttons kh;
     loop_release
   }"
  by (simp add: loop_def loop_AH_buttons_def loop_IN_buttons_def loop_command_buttons_def
      loop_release_def)

lemma pressAll_sel [simp]:
  "nesRegister (pressAll ks s) = nesRegister s"
  "dataLine (pressAll ks s) = dataLine s"
  "trace (pressAll ks s) = trace s @ map KeyboardPress ks"
  "isButtonPressed (pressAll ks s) = (isButtonPressed s \<or> ks \<noteq> [])"
  "lastPressedKey (pressAll ks s) = (if ks = [] then lastPressedKey s else last ks)"
  "sketch.more (pressAll ks s) = sketch.more s"
  by (simp_all add: pressAll_def)

lemma pressAll_pressAll: "pressAll ks (pressAll ks' s) = pressAll (ks' @ ks) s"
  by (simp add: pressAll_def)

lemma run_keyboardButtonPress:
  "run_state (keyboardButtonPress k) s = ((), pressAll [k] s)"
  by (simp add: keyboardButtonPress_def Keyboard_press_def State_Monad.update_def
      pressAll_def)

lemma run_checkButton:
  "run_state (checkButton b k) s =
     ((), pressAll (if bit (nesRegister s) b then [] else [k]) s)"
  by (simp add: checkButton_def bitRead_eq_0 run_keyboardButtonPress pressAll_def)

lemma run_checkButtons:
  "run_state (checkButtons tbl) s =
     ((), pressAll (map snd (filter (\<lambda>pk. \<not> bit (nesRegister s) (fst pk)) tbl)) s)"
proof (induction tbl arbitrary: s)
  case Nil
  show ?case
    by (simp add: pressAll_def)
next
  case (Cons x xs)
  show ?case
    by (simp add: Cons.IH run_checkButton pressAll_pressAll)
qed

lemma decode_keys:
  "map (keyCode kh) (decode r bits) =
     map snd (filter (\<lambda>pk. \<not> bit bits (fst pk))
       (map (\<lambda>pb. (fst pb, keyCode kh (snd pb))) (rowTable r)))"
  unfolding decode_def by (induction "rowTable r") (simp_all add: filter_map comp_def)

lemma loop_AH_buttons_table:
  "loop_AH_buttons =
     checkButtons (map (\<lambda>pb. (fst pb, keyCode kh (snd pb))) (rowTable ROW_AH))"
  by (simp add: loop_AH_buttons_def button_defs)

lemma loop_IN_buttons_table:
  "loop_IN_buttons =
     checkButtons (map (\<lambda>pb. (fst pb, keyCode kh (snd pb))) (rowTable ROW_IN))"
  by (simp add: loop_IN_buttons_def button_defs)

lemma loop_command_buttons_table:
  "loop_command_buttons kh =
     checkButtons (map (\<lambda>pb. (fst pb, keyCode kh (snd pb))) (rowTable ROW_CMD))"
  by (simp add: loop_command_buttons_def button_defs)

lemma run_loop_AH_buttons:
  "run_state loop_AH_buttons s =
     ((), pressAll (map (keyCode kh) (decode ROW_AH (nesRegister s))) s)"
  by (simp only: loop_AH_buttons_table [of kh] run_checkButtons decode_keys)

lemma run_loop_IN_buttons:
  "run_state loop_IN_buttons s =
     ((), pressAll (map (keyCode kh) (decode ROW_IN (nesRegister s))) s)"
  by (simp only: loop_IN_buttons_table [of kh] run_checkButtons decode_keys)

lemma run_loop_command_buttons:
  "run_state (loop_command_buttons kh) s =
     ((), pressAll (map (keyCode kh) (decode ROW_CMD (nesRegister s))) s)"
  by (simp only: loop_command_buttons_table run_checkButtons decode_keys)

lemma decode_cong:
  "\<forall>pb\<in>set (rowTable r). bit bits (fst pb) = bit bits' (fst pb) \<Longrightarrow>
     decode r bits = decode r bits'"
  unfolding decode_def by (rule arg_cong [where f = "map snd"], rule filter_cong) simp_all

lemma bit_0xFC: "bit (0xFC :: 8 word) p \<longleftrightarrow> 2 \<le> p \<and> p < 8"
proof (cases "p < 8")
  case True
  then show ?thesis
    unfolding less_8_cases by (elim disjE) simp_all
next
  case False
  then show ?thesis
    by (auto dest: bit_imp_le_length)
qed

lemma bit_0xFE: "bit (0xFE :: 8 word) p \<longleftrightarrow> 1 \<le> p \<and> p < 8"
proof (cases "p < 8")
  case True
  then show ?thesis
    unfolding less_8_cases by (elim disjE) simp_all
next
  case False
  then show ?thesis
    by (auto dest: bit_imp_le_length)
qed

lemma decode_IN_unused:
  assumes "bits AND 0xFC = bits' AND 0xFC"
  shows "decode ROW_IN bits = decode ROW_IN bits'"
proof (rule decode_cong, rule ballI)
  fix pb
  assume "pb \<in> set (rowTable ROW_IN)"
  then have p: "bit (0xFC :: 8 word) (fst pb)"
    by (auto simp add: bit_0xFC)
  have "bit (bits AND 0xFC) (fst pb) = bit (bits' AND 0xFC) (fst pb)"
    using assms by simp
  with p show "bit bits (fst pb) = bit bits' (fst pb)"
    by (simp only: bit_and_iff simp_thms)
qed

lemma decode_CMD_unused:
  assumes "bits AND 0xFE = bits' AND 0xFE"
  shows "decode ROW_CMD bits = decode ROW_CMD bits'"
proof (rule decode_cong, rule ballI)
  fix pb
  assume "pb \<in> set (rowTable ROW_CMD)"
  then have p: "bit (0xFE :: 8 word) (fst pb)"
    by (auto simp add: bit_0xFE)
  have "bit (bits AND 0xFE) (fst pb) = bit (bits' AND 0xFE) (fst pb)"
    using assms by simp
  with p show "bit bits (fst pb) = bit bits' (fst pb)"
    by (simp only: bit_and_iff simp_thms)
qed

lemma decode_samples:
  "decode ROW_AH (byteAH dl) =
     map snd (filter (\<lambda>pb. dl (fst pb) = LOW) (rowTable ROW_AH))"
  "decode ROW_IN (byteIN dl) =
     map snd (filter (\<lambda>pb. dl (fst pb - 2) = LOW) (rowTable ROW_IN))"
  "decode ROW_CMD (byteCMD dl) =
     map snd (filter (\<lambda>pb. dl (fst pb - 1) = LOW) (rowTable ROW_CMD))"
  unfolding decode_def
  by (rule arg_cong [where f = "map snd"], rule filter_cong, simp,
      simp add: bit_byteAH bit_byteIN bit_byteCMD, fastforce)+

lemma snapshot_samples:
  "snapshot s =
     map snd (filter (\<lambda>pb. dataLine s (fst pb) = LOW) (rowTable ROW_AH)) @
     map snd (filter (\<lambda>pb. dataLine s (fst pb + 6) = LOW) (rowTable ROW_IN)) @
     map snd (filter (\<lambda>pb. dataLine s (fst pb + 13) = LOW) (rowTable ROW_CMD))"
  by (simp add: snapshot_def rowBits_AH rowBits_IN rowBits_CMD decode_samples)

subsection \<open>One polling cycle\<close>

lemma run_loop_release:
  "run_state loop_release s =
     ((), s\<lparr>lastPressedKey := (if isButtonPressed s then lastPressedKey s else CHR 0x00),
            isButtonPressed := False,
            trace := trace s @
              (if isButtonPressed s then [Delay 80]
               else if lastPressedKey s \<noteq> CHR 0x00 then [KeyboardReleaseAll] else [])\<rparr>)"
  by (simp add: loop_release_def delay_def Keyboard_releaseAll_def State_Monad.update_def)

lemma after_sel [simp]:
  "nesRegister (after kh s) = rowBits s ROW_CMD"
  "dataLine (after kh s) = (\<lambda>n. dataLine s (n + 21))"
  "isButtonPressed (after kh s) = False"
  "trace (after kh s) = trace s @ cycleEvents kh s"
  "lastPressedKey (after kh s) = cycleKey kh s"
  "sketch.more (after kh s) = sketch.more s"
       apply (simp_all add: after_def loop_parts run_readAHrow run_readINrow
      run_readCommandRow run_loop_AH_buttons [of _ kh] run_loop_IN_buttons [of _ kh]
      run_loop_command_buttons run_loop_release State_Monad.update_def add.assoc
      rowBits_AH rowBits_IN rowBits_CMD split del: if_split)
   apply (simp_all add: cycleEvents_def tailEvents_def cycleKey_def snapshot_def
      rowBits_AH rowBits_IN rowBits_CMD last_map last_append add.commute [of 14])
  done

lemma emitted_loop: "emitted (loop kh) s = cycleEvents kh s"
  using after_sel(4) [of kh s] by (simp add: emitted_def after_def)

lemma keyboardCalls_Nil [simp]: "keyboardCalls [] = []"
  by (simp add: keyboardCalls_def)

lemma keyboardCalls_append [simp]:
  "keyboardCalls (xs @ ys) = keyboardCalls xs @ keyboardCalls ys"
  by (simp add: keyboardCalls_def)

lemma keyboardCalls_presses [simp]:
  "keyboardCalls (map (KeyboardPress \<circ> f) bs) = map (KeyboardPress \<circ> f) bs"
  by (induction bs) (simp_all add: keyboardCalls_def)

lemma keyboardCalls_gpio [simp]:
  "keyboardCalls (eventsAH dl) = []" "keyboardCalls (eventsIN dl) = []"
  "keyboardCalls (eventsCMD dl) = []"
  by (simp_all add: keyboardCalls_def gpio_defs)

lemma keyboardCalls_cycle:
  "keyboardCalls (cycleEvents kh s) =
     map (KeyboardPress \<circ> keyCode kh) (snapshot s) @
     (if snapshot s = [] \<and> \<not> isButtonPressed s \<and> lastPressedKey s \<noteq> CHR 0x00
      then [KeyboardReleaseAll] else [])"
  by (simp add: cycleEvents_def tailEvents_def snapshot_def) (simp add: keyboardCalls_def)

lemma pressKeys_append [simp]: "pressKeys (xs @ ys) = pressKeys xs @ pressKeys ys"
  by (induction xs rule: pressKeys.induct) simp_all

lemma pressKeys_presses [simp]: "pressKeys (map (KeyboardPress \<circ> f) bs) = map f bs"
  by (induction bs) simp_all

lemma pressKeys_gpio [simp]:
  "pressKeys (eventsAH dl) = []" "pressKeys (eventsIN dl) = []" "pressKeys (eventsCMD dl) = []"
  by (simp_all add: gpio_defs)

lemma pressKeys_tail [simp]: "pressKeys (tailEvents s) = []"
  by (simp add: tailEvents_def)

lemma pressKeys_cycle: "pressKeys (cycleEvents kh s) = map (keyCode kh) (snapshot s)"
  by (simp add: cycleEvents_def snapshot_def)

lemma activeKeys_append: "activeKeys (xs @ ys) = foldl activeStep (activeKeys xs) ys"
  by (simp add: activeKeys_def)

lemma activeStep_presses:
  "foldl activeStep A (map (KeyboardPress \<circ> f) bs) = A \<union> f ` set bs"
  by (induction bs arbitrary: A) simp_all

lemma activeStep_gpio [simp]:
  "foldl activeStep A (eventsAH dl) = A" "foldl activeStep A (eventsIN dl) = A"
  "foldl activeStep A (eventsCMD dl) = A"
  by (simp_all add: gpio_defs)

lemma activeStep_cycle:
  "foldl activeStep A (cycleEvents kh s) =
     (if snapshot s = [] \<and> \<not> isButtonPressed s \<and> lastPressedKey s \<noteq> CHR 0x00 then {}
      else A \<union> keyCode kh ` set (snapshot s))"
  by (auto simp add: cycleEvents_def tailEvents_def snapshot_def activeStep_presses)

lemma release_not_gpio [simp]:
  "KeyboardReleaseAll \<notin> set (eventsAH dl)" "KeyboardReleaseAll \<notin> set (eventsIN dl)"
  "KeyboardReleaseAll \<notin> set (eventsCMD dl)"
  by (simp_all add: gpio_defs)

lemma release_in_cycle:
  "KeyboardReleaseAll \<in> set (cycleEvents kh s) \<longleftrightarrow>
     snapshot s = [] \<and> \<not> isButtonPressed s \<and> lastPressedKey s \<noteq> CHR 0x00"
  by (auto simp add: cycleEvents_def tailEvents_def snapshot_def)

lemma keyCode_nonzero: "modifiers_nonzero kh \<Longrightarrow> keyCode kh b \<noteq> CHR 0x00"
  by (cases b) (simp_all add: modifiers_nonzero_def)

lemma cycleKey_pressed:
  "snapshot s \<noteq> [] \<Longrightarrow> cycleKey kh s = keyCode kh (last (snapshot s))"
  by (simp add: cycleKey_def)

lemma cycleKey_idle:
  "snapshot s = [] \<Longrightarrow> \<not> isButtonPressed s \<Longrightarrow> cycleKey kh s = CHR 0x00"
  by (simp add: cycleKey_def)

subsection \<open>Many polling cycles\<close>

lemma afterN_0 [simp]: "afterN kh 0 s = s"
  by (simp add: afterN_def)

lemma afterN_Suc: "afterN kh (Suc n) s = afterN kh n (after kh s)"
  by (simp add: afterN_def after_def split: prod.splits)

lemma afterN_Suc': "afterN kh (Suc n) s = after kh (afterN kh n s)"
  by (induction n arbitrary: s) (simp_all add: afterN_Suc)

lemma emitted_loops_0 [simp]: "emitted (loops kh 0) s = []"
  by (simp add: emitted_def)

declare loops.simps [simp del]

lemma trace_afterN: "\<exists>evs. trace (afterN kh n s) = trace s @ evs"
  by (induction n) (simp_all add: afterN_Suc', auto)

lemma trace_afterN_emitted: "trace (afterN kh n s) = trace s @ emitted (loops kh n) s"
  using trace_afterN [of kh n s] by (auto simp add: emitted_def afterN_def)

lemma emitted_loops_Suc:
  "emitted (loops kh (Suc n)) s = emitted (loops kh n) s @ cycleEvents kh (afterN kh n s)"
proof -
  have "trace (afterN kh (Suc n) s) =
          trace s @ emitted (loops kh n) s @ cycleEvents kh (afterN kh n s)"
    by (simp add: afterN_Suc' trace_afterN_emitted)
  then show ?thesis
    by (simp add: emitted_def afterN_def)
qed

lemma dataLine_afterN: "dataLine (afterN kh n s) = (\<lambda>i. dataLine s (i + 21 * n))"
  by (induction n) (simp_all add: afterN_Suc' add.assoc add.commute [of 21])

lemma held_calls:
  "\<forall>j<n. snapshot (afterN kh j s) = [b] \<Longrightarrow>
     keyboardCalls (emitted (loops kh n) s) = replicate n (KeyboardPress (keyCode kh b))"
proof (induction n)
  case 0
  show ?case
    by simp
next
  case (Suc n)
  then have "keyboardCalls (emitted (loops kh n) s) =
      replicate n (KeyboardPress (keyCode kh b))"
    by simp
  moreover have "snapshot (afterN kh n s) = [b]"
    using Suc.prems by simp
  ultimately show ?case
    by (simp add: emitted_loops_Suc keyboardCalls_cycle replicate_append_same)
qed

lemma idle_calls:
  "lastPressedKey s = CHR 0x00 \<Longrightarrow> \<not> isButtonPressed s \<Longrightarrow>
   \<forall>j<n. snapshot (afterN kh j s) = [] \<Longrightarrow>
     keyboardCalls (emitted (loops kh n) s) = [] \<and>
     lastPressedKey (afterN kh n s) = CHR 0x00 \<and> \<not> isButtonPressed (afterN kh n s)"
proof (induction n)
  case 0
  then show ?case
    by simp
next
  case (Suc n)
  then have IH: "keyboardCalls (emitted (loops kh n) s) = []"
    "lastPressedKey (afterN kh n s) = CHR 0x00" "\<not> isButtonPressed (afterN kh n s)"
    by simp_all
  have "snapshot (afterN kh n s) = []"
    using Suc.prems by simp
  with IH show ?case
    by (simp add: emitted_loops_Suc keyboardCalls_cycle afterN_Suc' cycleKey_idle)
qed

subsection \<open>From power-on\<close>

lemma booted_sel [simp]:
  "dataLine (booted dl) = dl" "lastPressedKey (booted dl) = CHR 0x00"
  "isButtonPressed (booted dl) = False" "nesRegister (booted dl) = 0"
  "trace (booted dl) =
     [PinMode nesData INPUT, PinMode nesClock OUTPUT, PinMode nesLatch OUTPUT,
      PinMode nesAH OUTPUT, PinMode nesIN OUTPUT, DigitalWrite nesClock LOW,
      DigitalWrite nesLatch LOW, KeyboardBegin]"
  by (simp_all add: booted_def setup_sketch_def power_on_def pinMode_def Keyboard_begin_def)

lemma run_afterN: "run kh n dl = afterN kh n (booted dl)"
  by (simp add: run_def afterN_def booted_def split: prod.splits)

lemma snapshot_tap_H:
  "snapshot (booted tap_H) = [Btn_H]"
  "snapshot (after kh (booted tap_H)) = [Btn_H]"
  "snapshot (after kh (after kh (booted tap_H))) = []"
  "snapshot (after kh (after kh (after kh (booted tap_H)))) = []"
  "snapshot (after kh (after kh (after kh (after kh (booted tap_H))))) = []"
  by (simp_all add: snapshot_samples tap_H_def)

subsection \<open>The select lines\<close>

lemma safeFrom_append:
  "safeFrom sel (xs @ ys) \<longleftrightarrow> safeFrom sel xs \<and> safeFrom (foldl selectStep sel xs) ys"
  by (induction xs arbitrary: sel) (auto, (cases ys; simp)+)

lemma safeFrom_take: "safeFrom sel evs \<Longrightarrow> \<not> bothLow (foldl selectStep sel (take k evs))"
proof (induction evs arbitrary: sel k)
  case Nil
  then show ?case
    by simp
next
  case (Cons e es)
  then show ?case
    by (cases k) simp_all
qed

lemma selectStep_other [simp]:
  "selectStep sel (KeyboardPress k) = sel" "selectStep sel KeyboardReleaseAll = sel"
  "selectStep sel (Delay d) = sel" "selectStep sel KeyboardBegin = sel"
  "selectStep sel (DigitalRead p v) = sel"
  by (cases sel; cases "fst sel"; cases "snd sel"; simp add: selectStep_def)+

lemma selectStep_write [simp]:
  "selectStep ((ma, a), (mi, i)) (DigitalWrite nesAH v) = ((ma, v), (mi, i))"
  "selectStep ((ma, a), (mi, i)) (DigitalWrite nesIN v) = ((ma, a), (mi, v))"
  "selectStep sel (DigitalWrite nesClock v) = sel"
  "selectStep sel (DigitalWrite nesLatch v) = sel"
  by (cases sel; cases "fst sel"; cases "snd sel"; simp add: selectStep_def pin_defs)+

lemma selectStep_presses [simp]: "foldl selectStep sel (map (KeyboardPress \<circ> f) bs) = sel"
  by (induction bs) simp_all

lemma safeFrom_presses [simp]: "safeFrom sel (map (KeyboardPress \<circ> f) bs) \<longleftrightarrow> \<not> bothLow sel"
  by (induction bs) simp_all

lemma sel_tail [simp]:
  "foldl selectStep sel (tailEvents s) = sel" "safeFrom sel (tailEvents s) \<longleftrightarrow> \<not> bothLow sel"
  by (simp_all add: tailEvents_def)

lemma sel_AH:
  "foldl selectStep ((OUTPUT, a), (OUTPUT, i)) (eventsAH dl) = ((OUTPUT, LOW), (OUTPUT, HIGH))"
  "safeFrom ((OUTPUT, a), (OUTPUT, i)) (eventsAH dl) \<longleftrightarrow> i \<noteq> LOW"
  by (auto simp add: gpio_defs bothLow_def)

lemma sel_IN:
  "foldl selectStep ((OUTPUT, a), (OUTPUT, i)) (eventsIN dl) = ((OUTPUT, HIGH), (OUTPUT, LOW))"
  "safeFrom ((OUTPUT, a), (OUTPUT, i)) (eventsIN dl) \<longleftrightarrow> \<not> (a = LOW \<and> i = LOW)"
  by (auto simp add: gpio_defs bothLow_def)

lemma sel_CMD:
  "foldl selectStep ((OUTPUT, a), (OUTPUT, i)) (eventsCMD dl) = ((OUTPUT, HIGH), (OUTPUT, HIGH))"
  "safeFrom ((OUTPUT, a), (OUTPUT, i)) (eventsCMD dl) \<longleftrightarrow> \<not> (a = LOW \<and> i = LOW)"
  by (auto simp add: gpio_defs bothLow_def)

lemma sel_cycle:
  "foldl selectStep ((OUTPUT, a), (OUTPUT, i)) (cycleEvents kh s) = ((OUTPUT, HIGH), (OUTPUT, HIGH))"
  "safeFrom ((OUTPUT, a), (OUTPUT, i)) (cycleEvents kh s) \<longleftrightarrow> i \<noteq> LOW"
  by (simp_all add: cycleEvents_def safeFrom_append sel_AH sel_IN sel_CMD bothLow_def)

lemma sel_loops:
  "safeFrom ((OUTPUT, a), (OUTPUT, HIGH)) (emitted (loops kh n) s) \<and>
   foldl selectStep ((OUTPUT, a), (OUTPUT, HIGH)) (emitted (loops kh n) s) =
     (if n = 0 then ((OUTPUT, a), (OUTPUT, HIGH)) else ((OUTPUT, HIGH), (OUTPUT, HIGH)))"
  by (induction n) (simp_all add: emitted_loops_Suc safeFrom_append sel_cycle bothLow_def)

lemma cycle_first_writes:
  "cycleEvents kh s =
     [DigitalWrite nesAH LOW, DigitalWrite nesIN HIGH] @ drop 2 (cycleEvents kh s)"
  by (simp add: cycleEvents_def eventsAH_def)

lemma sel_cycle_rest:
  "foldl selectStep ((OUTPUT, LOW), (OUTPUT, HIGH)) (drop 2 (cycleEvents kh s)) =
     ((OUTPUT, HIGH), (OUTPUT, HIGH))"
  "safeFrom ((OUTPUT, LOW), (OUTPUT, HIGH)) (drop 2 (cycleEvents kh s))"
proof -
  have "foldl selectStep ((OUTPUT, LOW), (OUTPUT, LOW)) (cycleEvents kh s) =
      foldl selectStep ((OUTPUT, LOW), (OUTPUT, HIGH)) (drop 2 (cycleEvents kh s))"
    by (subst cycle_first_writes) simp
  then show "foldl selectStep ((OUTPUT, LOW), (OUTPUT, HIGH)) (drop 2 (cycleEvents kh s)) =
     ((OUTPUT, HIGH), (OUTPUT, HIGH))"
    by (simp add: sel_cycle)
  have "safeFrom ((OUTPUT, HIGH), (OUTPUT, HIGH)) (cycleEvents kh s)"
    by (simp add: sel_cycle)
  then have "safeFrom ((OUTPUT, HIGH), (OUTPUT, HIGH))
      ([DigitalWrite nesAH LOW, DigitalWrite nesIN HIGH] @ drop 2 (cycleEvents kh s))"
    by (simp only: cycle_first_writes [symmetric])
  then show "safeFrom ((OUTPUT, LOW), (OUTPUT, HIGH)) (drop 2 (cycleEvents kh s))"
    by simp
qed

lemma trace_run_Suc:
  "trace (run kh (Suc n) dl) =
     (trace (booted dl) @ [DigitalWrite nesAH LOW, DigitalWrite nesIN HIGH]) @
     drop 2 (cycleEvents kh (booted dl)) @ emitted (loops kh n) (after kh (booted dl))"
proof -
  have "trace (run kh (Suc n) dl) =
      trace (booted dl) @ cycleEvents kh (booted dl) @
      emitted (loops kh n) (after kh (booted dl))"
    by (simp add: run_afterN afterN_Suc trace_afterN_emitted)
  then show ?thesis
    by (subst (asm) cycle_first_writes) simp
qed

lemma sel_first_writes:
  "foldl selectStep ((INPUT, ah0), (INPUT, in0))
     (trace (booted dl) @ [DigitalWrite nesAH LOW, DigitalWrite nesIN HIGH]) =
   ((OUTPUT, LOW), (OUTPUT, HIGH))"
  by (simp add: selectStep_def pin_defs)

lemma take_past_prefix:
  "length pre = m \<Longrightarrow> m \<le> k \<Longrightarrow> take k (pre @ rest) = pre @ take (k - m) rest"
  by simp

lemma selects_safe_after_first_writes:
  assumes "10 \<le> k"
  shows "\<not> bothLow (selectLines ah0 in0 (take k (trace (run kh (Suc n) dl))))"
proof -
  let ?pre = "trace (booted dl) @ [DigitalWrite nesAH LOW, DigitalWrite nesIN HIGH]"
  let ?rest = "drop 2 (cycleEvents kh (booted dl)) @ emitted (loops kh n) (after kh (booted dl))"
  have len: "length ?pre = 10"
    by simp
  have "take k (?pre @ ?rest) = ?pre @ take (k - 10) ?rest"
    using len assms by (rule take_past_prefix)
  then have "selectLines ah0 in0 (take k (trace (run kh (Suc n) dl))) =
      foldl selectStep ((INPUT, ah0), (INPUT, in0)) (?pre @ take (k - 10) ?rest)"
    by (simp only: trace_run_Suc selectLines_def)
  also have "\<dots> = foldl selectStep (foldl selectStep ((INPUT, ah0), (INPUT, in0)) ?pre)
      (take (k - 10) ?rest)"
    by (rule foldl_append)
  finally have eq: "selectLines ah0 in0 (take k (trace (run kh (Suc n) dl))) =
      foldl selectStep ((OUTPUT, LOW), (OUTPUT, HIGH)) (take (k - 10) ?rest)"
    by (simp only: sel_first_writes)
  have "safeFrom ((OUTPUT, LOW), (OUTPUT, HIGH)) ?rest"
    using sel_loops [of HIGH kh n "after kh (booted dl)"]
    by (simp add: safeFrom_append sel_cycle_rest)
  then have "\<not> bothLow (foldl selectStep ((OUTPUT, LOW), (OUTPUT, HIGH)) (take (k - 10) ?rest))"
    by (rule safeFrom_take)
  then show ?thesis
    unfolding eq .
qed

lemma selects_safe_if_IN_high:
  "\<not> bothLow (selectLines ah0 HIGH (take k (trace (run kh n dl))))"
proof -
  have "safeFrom ((INPUT, ah0), (INPUT, HIGH)) (trace (run kh n dl))"
    using sel_loops [of ah0 kh n "booted dl"]
    by (simp add: run_afterN trace_afterN_emitted safeFrom_append selectStep_def pin_defs bothLow_def)
  then show ?thesis
    unfolding selectLines_def by (rule safeFrom_take)
qed

section \<open>The claims\<close>

subsection \<open>Reading a row\<close>

text \<open>
  Claim C7. For every sequence of data-line levels, \<^verbatim>\<open>readAHrow\<close> selects the row,
  pulses the latch, samples the data line, and then seven times pulses the clock and
  samples again; the sample taken right after the latch pulse is bit 0 of the result,
  the sample after the \<open>i\<close>-th clock pulse is bit \<open>i\<close>, and a bit is 0 exactly when its
  sample read LOW.
\<close>

theorem readAHrow_bits:
  "emitted readAHrow s =
     [DigitalWrite nesAH LOW, DigitalWrite nesIN HIGH] @ latch @ sample (dataLine s) 0 @
     clock @ sample (dataLine s) 1 @ clock @ sample (dataLine s) 2 @
     clock @ sample (dataLine s) 3 @ clock @ sample (dataLine s) 4 @
     clock @ sample (dataLine s) 5 @ clock @ sample (dataLine s) 6 @
     clock @ sample (dataLine s) 7 \<and>
   (\<forall>i<8. bit (fst (run_state readAHrow s)) i \<longleftrightarrow> dataLine s i \<noteq> LOW)"
  by (simp add: emitted_readers run_readAHrow bit_byteAH) (simp add: eventsAH_def)

text \<open>
  With button H held, the first sample is LOW and the others HIGH: bit 0 of the result
  is 0 and bit 1 is 1.
\<close>

theorem readAHrow_bits_witness:
  "(0::nat) < 8 \<and> \<not> bit (fst (run_state readAHrow (booted tap_H))) 0 \<and>
   (1::nat) < 8 \<and> bit (fst (run_state readAHrow (booted tap_H))) 1"
  using readAHrow_bits [of "booted tap_H"] by (simp add: tap_H_def)

text \<open>
  Claim C10. Whatever the data line shows, the value \<^verbatim>\<open>readINrow\<close> returns has bits
  0 and 1 set and the value \<^verbatim>\<open>readCommandRow\<close> returns has bit 0 set: the positions
  without a button always read as not pressed.
\<close>

theorem unused_bits_high:
  "bit (fst (run_state readINrow s)) 0 \<and> bit (fst (run_state readINrow s)) 1 \<and>
   bit (fst (run_state readCommandRow s)) 0"
  by (simp add: run_readINrow run_readCommandRow bit_byteIN bit_byteCMD)

text \<open>
  Claim C3, as the sketch has it. The three row readers pulse the latch once and the
  clock seven times, in the same order, but they do not read the data line equally
  often: \<^verbatim>\<open>readAHrow\<close> reads it eight times, \<^verbatim>\<open>readCommandRow\<close> seven times, leaving
  out the read that follows the latch pulse, and \<^verbatim>\<open>readINrow\<close> six times, leaving out
  that read and the one after the first clock pulse. A position without a button is
  clocked past and the data line is not read there.
\<close>

theorem row_clocking:
  "emitted readINrow s =
     [DigitalWrite nesAH HIGH, DigitalWrite nesIN LOW] @ latch @
     clock @ clock @ sample (dataLine s) 0 @ clock @ sample (dataLine s) 1 @
     clock @ sample (dataLine s) 2 @ clock @ sample (dataLine s) 3 @
     clock @ sample (dataLine s) 4 @ clock @ sample (dataLine s) 5 \<and>
   emitted readCommandRow s =
     [DigitalWrite nesAH HIGH, DigitalWrite nesIN HIGH] @ latch @
     clock @ sample (dataLine s) 0 @ clock @ sample (dataLine s) 1 @
     clock @ sample (dataLine s) 2 @ clock @ sample (dataLine s) 3 @
     clock @ sample (dataLine s) 4 @ clock @ sample (dataLine s) 5 @
     clock @ sample (dataLine s) 6 \<and>
   filter isPulse (emitted readAHrow s) = latch @ concat (replicate 7 clock) \<and>
   filter isPulse (emitted readINrow s) = latch @ concat (replicate 7 clock) \<and>
   filter isPulse (emitted readCommandRow s) = latch @ concat (replicate 7 clock) \<and>
   length (filter isRead (emitted readAHrow s)) = 8 \<and>
   length (filter isRead (emitted readINrow s)) = 6 \<and>
   length (filter isRead (emitted readCommandRow s)) = 7"
  unfolding emitted_readers
  by (intro conjI, fact eventsIN_def, fact eventsCMD_def) (rule pulses_events reads_events)+

text \<open>
  Claim C3, as stated, asks for eight reads of the data line in every row. On an idle
  data line \<^verbatim>\<open>readINrow\<close> makes six reads and \<^verbatim>\<open>readCommandRow\<close> seven.
\<close>

theorem row_reads_counterexample:
  "length (filter isRead (emitted readINrow (power_on idle_line))) = 6 \<and>
   length (filter isRead (emitted readCommandRow (power_on idle_line))) = 7 \<and>
   length (filter isRead (emitted readINrow (power_on idle_line))) \<noteq> 8"
  by (simp add: emitted_readers reads_events)

subsection \<open>Decoding and key codes\<close>

text \<open>
  Claim C4. For every 8-bit value that the data line presents in the A-H row,
  \<^verbatim>\<open>readAHrow\<close> returns it and \<^verbatim>\<open>loop\<close> presses, right after the read, exactly the keys
  of the buttons whose bit in the table (0 is H, 1 is G, up to 7 is A) is 0, in the
  order of the table; the eight keys differ, so that the keys pressed tell the buttons.
  What \<^verbatim>\<open>loop\<close> presses after the I-N and command reads does not depend on the bits at
  the positions without a button: it is the decode of every byte that agrees with the
  byte read outside bits 0 and 1 in the I-N row, and outside bit 0 in the command row.
\<close>

theorem decode_exact:
  assumes "map (dataLine s) [0..<8] = samplesOf bits"
    and "r AND 0xFC = rowBits s ROW_IN AND 0xFC"
    and "q AND 0xFE = rowBits s ROW_CMD AND 0xFE"
  shows "fst (run_state readAHrow s) = bits \<and>
         emitted (loop kh) s =
           emitted readAHrow s @
           map KeyboardPress (map (keyCode kh) (decode ROW_AH bits)) @
           emitted readINrow (s\<lparr>dataLine := (\<lambda>n. dataLine s (n + 8))\<rparr>) @
           map KeyboardPress (map (keyCode kh) (decode ROW_IN r)) @
           emitted readCommandRow (s\<lparr>dataLine := (\<lambda>n. dataLine s (n + 14))\<rparr>) @
           map KeyboardPress (map (keyCode kh) (decode ROW_CMD q)) @
           (if decode ROW_AH bits @ decode ROW_IN r @ decode ROW_CMD q \<noteq> [] \<or> isButtonPressed s
            then [Delay 80]
            else if lastPressedKey s \<noteq> CHR 0x00 then [KeyboardReleaseAll] else []) \<and>
         distinct (map (keyCode kh) (map snd (rowTable ROW_AH)))"
proof -
  have a: "rowBits s ROW_AH = bits"
    using assms(1) by (simp add: rowBits_AH byteAH_samples)
  have i: "decode ROW_IN (rowBits s ROW_IN) = decode ROW_IN r"
    using assms(2) by (rule decode_IN_unused [symmetric])
  have c: "decode ROW_CMD (rowBits s ROW_CMD) = decode ROW_CMD q"
    using assms(3) by (rule decode_CMD_unused [symmetric])
  have "fst (run_state readAHrow s) = bits"
    using a by (simp add: rowBits_def)
  moreover have "emitted (loop kh) s =
           emitted readAHrow s @
           map KeyboardPress (map (keyCode kh) (decode ROW_AH bits)) @
           emitted readINrow (s\<lparr>dataLine := (\<lambda>n. dataLine s (n + 8))\<rparr>) @
           map KeyboardPress (map (keyCode kh) (decode ROW_IN r)) @
           emitted readCommandRow (s\<lparr>dataLine := (\<lambda>n. dataLine s (n + 14))\<rparr>) @
           map KeyboardPress (map (keyCode kh) (decode ROW_CMD q)) @
           (if decode ROW_AH bits @ decode ROW_IN r @ decode ROW_CMD q \<noteq> [] \<or> isButtonPressed s
            then [Delay 80]
            else if lastPressedKey s \<noteq> CHR 0x00 then [KeyboardReleaseAll] else [])"
    by (simp add: emitted_loop cycleEvents_def tailEvents_def snapshot_def a i c
        emitted_readers)
  ultimately show ?thesis
    by simp
qed

text \<open>
  Button H held at power-on: the A-H row reads 0xFE and \<^verbatim>\<open>loop\<close> presses h after it;
  the other rows read 0xFF, and the bytes 0xFC and 0xFE, which differ from it only at
  unused positions, decode to no button.
\<close>

theorem decode_exact_witness:
  "map (dataLine (booted tap_H)) [0..<8] = samplesOf 0xFE \<and>
   (0xFC :: 8 word) AND 0xFC = rowBits (booted tap_H) ROW_IN AND 0xFC \<and>
   (0xFE :: 8 word) AND 0xFE = rowBits (booted tap_H) ROW_CMD AND 0xFE \<and>
   fst (run_state readAHrow (booted tap_H)) = 0xFE \<and>
   emitted (loop arduino_keyboard_h) (booted tap_H) =
     emitted readAHrow (booted tap_H) @ [KeyboardPress (CHR ''h'')] @
     emitted readINrow (booted tap_H\<lparr>dataLine := (\<lambda>n. tap_H (n + 8))\<rparr>) @
     emitted readCommandRow (booted tap_H\<lparr>dataLine := (\<lambda>n. tap_H (n + 14))\<rparr>) @
     [Delay 80]"
proof -
  have h: "map (dataLine (booted tap_H)) [0..<8] = samplesOf 0xFE"
    by (simp add: samplesOf_0xFE) (simp add: upt_rec tap_H_def)
  have i: "rowBits (booted tap_H) ROW_IN = 0xFF"
    by (simp add: rowBits_IN byteIN_def clearIf_def tap_H_def)
  have c: "rowBits (booted tap_H) ROW_CMD = 0xFF"
    by (simp add: rowBits_CMD byteCMD_def clearIf_def tap_H_def)
  show ?thesis
    using decode_exact [of "booted tap_H" "0xFE" "0xFC" "0xFE" arduino_keyboard_h] h
    by (simp add: i c decode_def)
qed

text \<open>
  Claim C6. In every polling cycle the key codes passed to \<^verbatim>\<open>Keyboard.press\<close> are
  those of the buttons read as pressed, by the fixed mapping \<open>keyCode\<close>: A to N give
  their lowercase letters, RON gives z, RIICHI left shift, CHI space, PON left alt,
  KAN left ctrl, ST 1 and SEL 5.
\<close>

theorem loop_key_codes:
  "pressKeys (emitted (loop kh) s) = map (keyCode kh) (snapshot s)"
  by (simp add: emitted_loop pressKeys_cycle)

text \<open>With button H held, the one key pressed in the first cycle is h.\<close>

theorem loop_key_codes_witness:
  "pressKeys (emitted (loop arduino_keyboard_h) (booted tap_H)) = [CHR ''h'']"
  using loop_key_codes [of arduino_keyboard_h "booted tap_H"]
  by (simp add: snapshot_tap_H)

subsection \<open>Press and release\<close>

text \<open>
  Claim C1, as the sketch has it. The sketch keeps no set of active buttons: in every
  cycle it calls \<^verbatim>\<open>Keyboard.press\<close> for every button read as pressed. For a non-empty
  snapshot read twice in a row, the second cycle makes the same keyboard calls as the
  first, one press for every button of the snapshot and no release-all, and the set of
  keys pressed and not released is the same after the second cycle as after the first.
\<close>

theorem held_buttons_pressed_again:
  assumes "snapshot s \<noteq> []" and "snapshot (after kh s) = snapshot s"
  shows "keyboardCalls (emitted (loop kh) (after kh s)) =
           map KeyboardPress (map (keyCode kh) (snapshot s)) \<and>
         keyboardCalls (emitted (loop kh) (after kh s)) = keyboardCalls (emitted (loop kh) s) \<and>
         activeKeys (trace (after kh (after kh s))) = activeKeys (trace (after kh s))"
  using assms
  by (auto simp add: emitted_loop keyboardCalls_cycle activeKeys_append activeStep_cycle)

text \<open>
  Button H held for two cycles from power-on: the second cycle presses h again, and
  the active keys stay the one key h.
\<close>

theorem held_buttons_pressed_again_witness:
  "snapshot (booted tap_H) \<noteq> [] \<and>
   snapshot (after arduino_keyboard_h (booted tap_H)) = snapshot (booted tap_H) \<and>
   keyboardCalls (emitted (loop arduino_keyboard_h) (after arduino_keyboard_h (booted tap_H))) =
     [KeyboardPress (CHR ''h'')] \<and>
   activeKeys (trace (after arduino_keyboard_h (after arduino_keyboard_h (booted tap_H)))) =
     {CHR ''h''}"
  using held_buttons_pressed_again [of "booted tap_H" arduino_keyboard_h]
  by (simp add: snapshot_tap_H activeKeys_append activeStep_cycle activeKeys_def)

text \<open>
  Claim C1, as stated, asks for no press in the second of two cycles with the same
  snapshot. With button H held from power-on, both cycles read the snapshot H, and the
  second cycle presses h.
\<close>

theorem second_cycle_counterexample:
  "snapshot (booted tap_H) = [Btn_H] \<and>
   snapshot (after arduino_keyboard_h (booted tap_H)) = [Btn_H] \<and>
   pressKeys (emitted (loop arduino_keyboard_h) (after arduino_keyboard_h (booted tap_H))) =
     [CHR ''h'']"
  by (simp add: snapshot_tap_H emitted_loop pressKeys_cycle)

text \<open>
  Claim C2, as the sketch has it. For a button \<open>b\<close> whose key code is not 0 and
  \<open>N \<ge> 1\<close> polling cycles in a row in which only \<open>b\<close> is read as pressed, followed by
  a cycle in which no button is read as pressed, the keyboard calls are \<open>N\<close> presses of
  the key of \<open>b\<close>, one per cycle, and then one release-all.
\<close>

theorem hold_release_calls:
  assumes "1 \<le> N" and "\<forall>j<N. snapshot (afterN kh j s) = [b]"
    and "snapshot (afterN kh N s) = []" and "keyCode kh b \<noteq> CHR 0x00"
  shows "keyboardCalls (emitted (loops kh (Suc N)) s) =
           replicate N (KeyboardPress (keyCode kh b)) @ [KeyboardReleaseAll]"
proof -
  obtain M where N: "N = Suc M"
    using assms(1) by (cases N) auto
  have "snapshot (afterN kh M s) = [b]"
    using assms(2) N by simp
  then have "lastPressedKey (afterN kh N s) = keyCode kh b"
    by (simp add: N afterN_Suc' cycleKey_pressed)
  moreover have "\<not> isButtonPressed (afterN kh N s)"
    by (simp add: N afterN_Suc')
  ultimately show ?thesis
    using assms by (simp add: emitted_loops_Suc held_calls keyboardCalls_cycle)
qed

text \<open>Button H held for two cycles and let go: press h, press h, release-all.\<close>

theorem hold_release_calls_witness:
  "(1::nat) \<le> 2 \<and>
   snapshot (afterN arduino_keyboard_h 0 (booted tap_H)) = [Btn_H] \<and>
   snapshot (afterN arduino_keyboard_h 1 (booted tap_H)) = [Btn_H] \<and>
   snapshot (afterN arduino_keyboard_h 2 (booted tap_H)) = [] \<and>
   keyCode arduino_keyboard_h Btn_H \<noteq> CHR 0x00 \<and>
   keyboardCalls (emitted (loops arduino_keyboard_h (Suc 2)) (booted tap_H)) =
     [KeyboardPress (CHR ''h''), KeyboardPress (CHR ''h''), KeyboardReleaseAll]"
  using hold_release_calls [of 2 arduino_keyboard_h "booted tap_H" Btn_H]
  by (simp add: eval_nat_numeral afterN_Suc' snapshot_tap_H less_Suc_eq)

text \<open>
  Claim C2, as stated, asks for exactly one press whatever the number of cycles. With
  button H held for two cycles and then let go, the three cycles make two press calls
  before the release-all.
\<close>

theorem two_cycles_counterexample:
  "snapshot (afterN arduino_keyboard_h 0 (booted tap_H)) = [Btn_H] \<and>
   snapshot (afterN arduino_keyboard_h 1 (booted tap_H)) = [Btn_H] \<and>
   snapshot (afterN arduino_keyboard_h 2 (booted tap_H)) = [] \<and>
   keyboardCalls (emitted (loops arduino_keyboard_h 3) (booted tap_H)) =
     [KeyboardPress (CHR ''h''), KeyboardPress (CHR ''h''), KeyboardReleaseAll]"
  by (simp add: eval_nat_numeral afterN_Suc' snapshot_tap_H emitted_loops_Suc
      keyboardCalls_cycle cycleKey_pressed)

text \<open>
  Claim C5. After a cycle with a non-empty snapshot the keys of its buttons are active;
  if the next cycle reads an empty snapshot, its only keyboard call is one release-all,
  after which no key is active and the last pressed key is 0 again. The three codes of
  \<^verbatim>\<open>Keyboard.h\<close> are taken to be non-zero.
\<close>

theorem release_complete:
  assumes "modifiers_nonzero kh" and "snapshot s \<noteq> []" and "snapshot (after kh s) = []"
  shows "keyCode kh ` set (snapshot s) \<subseteq> activeKeys (trace (after kh s)) \<and>
         keyboardCalls (emitted (loop kh) (after kh s)) = [KeyboardReleaseAll] \<and>
         activeKeys (trace (after kh (after kh s))) = {} \<and>
         lastPressedKey (after kh (after kh s)) = CHR 0x00"
  using assms
  by (simp add: emitted_loop keyboardCalls_cycle activeKeys_append activeStep_cycle
      cycleKey_pressed cycleKey_idle keyCode_nonzero)

text \<open>
  Button H held for two cycles and let go: the third cycle from power-on follows a
  cycle that read H and reads nothing itself.
\<close>

theorem release_complete_witness:
  "modifiers_nonzero arduino_keyboard_h \<and>
   snapshot (after arduino_keyboard_h (booted tap_H)) \<noteq> [] \<and>
   snapshot (after arduino_keyboard_h (after arduino_keyboard_h (booted tap_H))) = [] \<and>
   keyboardCalls (emitted (loop arduino_keyboard_h)
     (after arduino_keyboard_h (after arduino_keyboard_h (booted tap_H)))) =
     [KeyboardReleaseAll] \<and>
   activeKeys (trace (after arduino_keyboard_h (after arduino_keyboard_h
     (after arduino_keyboard_h (booted tap_H))))) = {}"
  using release_complete [of arduino_keyboard_h "after arduino_keyboard_h (booted tap_H)"]
  by (simp add: snapshot_tap_H modifiers_nonzero_def arduino_keyboard_h_def)

text \<open>
  Claim C9. A cycle that emits the release-all leaves the last pressed key at 0, and
  as long as the following cycles read an empty snapshot they make no keyboard call
  and the last pressed key stays 0; and no cycle emits a release-all when the last
  pressed key is 0 at its start.
\<close>

theorem no_repeated_release:
  assumes "KeyboardReleaseAll \<in> set (emitted (loop kh) s)"
    and "\<forall>j<n. snapshot (afterN kh j (after kh s)) = []"
  shows "lastPressedKey (after kh s) = CHR 0x00 \<and>
         keyboardCalls (emitted (loops kh n) (after kh s)) = [] \<and>
         lastPressedKey (afterN kh n (after kh s)) = CHR 0x00 \<and>
         (\<forall>t. KeyboardReleaseAll \<in> set (emitted (loop kh) t) \<longrightarrow>
            lastPressedKey t \<noteq> CHR 0x00)"
proof -
  from assms(1) have "snapshot s = []" "\<not> isButtonPressed s"
    by (simp_all add: emitted_loop release_in_cycle)
  then have "lastPressedKey (after kh s) = CHR 0x00"
    by (simp add: cycleKey_idle)
  then show ?thesis
    using idle_calls [of "after kh s" n kh] assms(2)
    by (simp add: emitted_loop release_in_cycle)
qed

text \<open>
  Button H held for two cycles and let go: the third cycle starts with the last pressed
  key h and emits the release-all, and the fourth and fifth, which read nothing, make
  no keyboard call.
\<close>

theorem no_repeated_release_witness:
  "KeyboardReleaseAll \<in> set (emitted (loop arduino_keyboard_h)
      (after arduino_keyboard_h (after arduino_keyboard_h (booted tap_H)))) \<and>
   lastPressedKey (after arduino_keyboard_h (after arduino_keyboard_h (booted tap_H))) =
     CHR ''h'' \<and>
   snapshot (afterN arduino_keyboard_h 0
      (after arduino_keyboard_h (after arduino_keyboard_h (after arduino_keyboard_h
        (booted tap_H))))) = [] \<and>
   snapshot (afterN arduino_keyboard_h 1
      (after arduino_keyboard_h (after arduino_keyboard_h (after arduino_keyboard_h
        (booted tap_H))))) = [] \<and>
   keyboardCalls (emitted (loops arduino_keyboard_h 2)
      (after arduino_keyboard_h (after arduino_keyboard_h (after arduino_keyboard_h
        (booted tap_H))))) = []"
  using no_repeated_release [of arduino_keyboard_h
      "after arduino_keyboard_h (after arduino_keyboard_h (booted tap_H))" 2]
  by (simp add: emitted_loop release_in_cycle snapshot_tap_H cycleKey_pressed less_Suc_eq
      eval_nat_numeral afterN_Suc')

subsection \<open>The select lines\<close>


end
